theory Spec2Isabelle
  imports Complex_Main "HOL-Library.Word"
begin

unbundle bit_operations_syntax

section \<open>The OPT4001 driver (OPT4001.py)\<close>

text \<open>
  The driver is one Python class. Its methods mutate a three-byte scratch buffer and talk
  to an I2C bus, so every method is a function from the driver's state to a result and
  the state after the call; an exception is the left summand of the result and leaves
  the state as it was when the exception was raised. Python integers are \<open>int\<close>, the
  cells of the \<open>bytearray\<close> are \<open>8 word\<close>.
\<close>

subsection \<open>Registers\<close>

definition RESULT_H :: int where "RESULT_H = 0x00"
definition RESULT_L :: int where "RESULT_L = 0x01"
definition FIFO_0_H :: int where "FIFO_0_H = 0x02"
definition FIFO_0_L :: int where "FIFO_0_L = 0x03"
definition FIFO_1_H :: int where "FIFO_1_H = 0x04"
definition FIFO_1_L :: int where "FIFO_1_L = 0x05"
definition FIFO_2_H :: int where "FIFO_2_H = 0x06"
definition FIFO_2_L :: int where "FIFO_2_L = 0x07"

subsection \<open>Exceptions\<close>

datatype error = KeyError | ValueError | OSError | OverflowError

subsection \<open>Python floats\<close>

text \<open>
  A float is an IEEE binary64 number, here a sign, a significand and a binary exponent:
  \<open>Float neg m e\<close> stands for \<open>\<plusminus> m * 2 ^ e\<close>. Arithmetic rounds to 53 significant
  bits, ties to even. The exponent is unbounded in the model. The driver forms one
  product, an integer below \<open>2 ^ 1024\<close> times the scale factor, and one sum, a clock
  reading plus \<open>1.1\<close>; neither leaves the range of binary64, and a sum of two binary64
  numbers that falls among the subnormal ones is exact.
\<close>

datatype pyfloat = Float (fneg: bool) (fsig: nat) (fexp: int)

definition float_val :: "pyfloat \<Rightarrow> rat" where
  "float_val x =
     (if fneg x then - 1 else 1) * of_nat (fsig x) *
     (if 0 \<le> fexp x then 2 ^ nat (fexp x) else 1 / 2 ^ nat (- fexp x))"

fun bit_length :: "nat \<Rightarrow> nat" where
  "bit_length n = (if n = 0 then 0 else Suc (bit_length (n div 2)))"

declare bit_length.simps [simp del]

text \<open>
  \<open>round_sig n\<close> is the multiple of \<open>2 ^ s\<close> nearest to \<open>n\<close>, ties to the even
  quotient, where \<open>s\<close> is the number of bits \<open>n\<close> has beyond 53.
\<close>

definition round_sig :: "nat \<Rightarrow> nat" where
  "round_sig n =
     (let s = bit_length n - 53; q = n div 2 ^ s; r = n mod 2 ^ s
      in if s = 0 then n
         else (if 2 ^ s < 2 * r \<or> (2 * r = 2 ^ s \<and> odd q) then q + 1 else q) * 2 ^ s)"

text \<open>\<open>float(n)\<close> for an integer \<open>n\<close>: OverflowError from \<open>2 ^ 1024\<close> on.\<close>

definition float_of_int :: "int \<Rightarrow> error + pyfloat" where
  "float_of_int n =
     (let m = round_sig (nat \<bar>n\<bar>)
      in if 2 ^ 1024 \<le> m then Inl OverflowError else Inr (Float (n < 0) m 0))"

definition float_mul :: "pyfloat \<Rightarrow> pyfloat \<Rightarrow> pyfloat" where
  "float_mul x y =
     Float (fneg x \<noteq> fneg y) (round_sig (fsig x * fsig y)) (fexp x + fexp y)"

text \<open>
  \<open>x + y\<close> on floats: the exact sum, as an integer multiple of the smaller power of two,
  rounded. \<open>x < y\<close> compares the values.
\<close>

definition float_add :: "pyfloat \<Rightarrow> pyfloat \<Rightarrow> pyfloat" where
  "float_add x y =
     (let e = min (fexp x) (fexp y);
          a = (if fneg x then - 1 else 1) * int (fsig x) * 2 ^ nat (fexp x - e);
          b = (if fneg y then - 1 else 1) * int (fsig y) * 2 ^ nat (fexp y - e);
          c = a + b
      in Float (c < 0) (round_sig (nat \<bar>c\<bar>)) e)"

definition float_less :: "pyfloat \<Rightarrow> pyfloat \<Rightarrow> bool" where
  "float_less x y = (float_val x < float_val y)"

text \<open>
  The literals \<open>1.1\<close> and \<open>0.001\<close>: the binary64 numbers nearest to \<open>11 / 10\<close> and to
  \<open>1 / 1000\<close>, which are \<open>2476979795053773 / 2 ^ 51\<close> and \<open>1152921504606847 / 2 ^ 60\<close>.
\<close>

definition float_1_1 :: pyfloat where
  "float_1_1 = Float False 2476979795053773 (- 51)"

definition float_0_001 :: pyfloat where
  "float_0_001 = Float False 1152921504606847 (- 60)"

text \<open>
  The literal \<open>.0004375\<close>: the binary64 number nearest to \<open>7 / 16000\<close>, which is
  \<open>8070450532247929 / 2 ^ 64\<close>.
\<close>

definition lux_per_code :: pyfloat where
  "lux_per_code = Float False 8070450532247929 (- 64)"

text \<open>
  The literal \<open>0.112\<close>: the binary64 number nearest to \<open>14 / 125\<close>, which is
  \<open>8070450532247929 / 2 ^ 56\<close>.
\<close>

definition float_0_112 :: pyfloat where
  "float_0_112 = Float False 8070450532247929 (- 56)"

text \<open>\<open>n * x\<close> for an integer \<open>n\<close> and a float \<open>x\<close>: \<open>n\<close> is converted first.\<close>

definition int_times_float :: "int \<Rightarrow> pyfloat \<Rightarrow> error + pyfloat" where
  "int_times_float n x =
     (case float_of_int n of Inl e \<Rightarrow> Inl e | Inr y \<Rightarrow> Inr (float_mul y x))"

text \<open>\<open>a << n\<close> on integers: a negative shift count raises ValueError.\<close>

definition lshift :: "int \<Rightarrow> int \<Rightarrow> error + int" where
  "lshift a n = (if n < 0 then Inl ValueError else Inr (push_bit (nat n) a))"

subsection \<open>The bus and the clock\<close>

type_synonym byte = "8 word"

text \<open>
  What went over the bus: \<open>Transfer a\<close> is one \<open>write_then_readinto\<close> of \<open>read_u16\<close>
  with address byte \<open>a\<close>, \<open>FlagPoll\<close> one read of the \<open>conversion_ready_flag\<close>
  descriptor.
\<close>

datatype bus_op = Transfer byte | FlagPoll

text \<open>
  The libraries the driver imports (\<open>adafruit_bus_device\<close>, \<open>adafruit_register\<close>,
  \<open>time\<close>) are not part of the repository. They are parameters of the model:
  \<^item> \<open>write_then_readinto env n a\<close> is what the device answers when the \<open>n\<close>-th bus
    operation writes the address byte \<open>a\<close> and reads into the whole of \<open>buf\<close>
    (\<open>out_end=1, in_start=0\<close>, so three bytes arrive); \<open>None\<close> when the library
    raises;
  \<^item> \<open>flag_bit env n\<close> is the value of the \<open>conversion_ready_flag\<close> descriptor when
    reading it is the \<open>n\<close>-th bus operation; \<open>None\<close> when the library raises;
  \<^item> \<open>monotonic env k\<close> is the float that the \<open>k\<close>-th call of \<open>time.monotonic()\<close>
    returns; \<open>time.sleep\<close> changes nothing but the readings that follow, which the
    environment fixes.
\<close>

record env =
  write_then_readinto :: "nat \<Rightarrow> byte \<Rightarrow> (byte \<times> byte \<times> byte) option"
  flag_bit :: "nat \<Rightarrow> bool option"
  monotonic :: "nat \<Rightarrow> pyfloat"

text \<open>
  The state: \<open>self.buf\<close> (a \<open>bytearray(3)\<close>, never resized), the bus operations issued
  so far and the number of clock readings taken so far.
\<close>

record state =
  buf :: "byte \<times> byte \<times> byte"
  bus_log :: "bus_op list"
  ticks :: nat

subsection \<open>Reading a register\<close>

text \<open>
  \<open>read_u16\<close>: \<open>self.buf[0] = addr\<close> raises ValueError unless \<open>addr\<close> is in
  \<open>range(256)\<close>; then one bus operation writes \<open>buf[0]\<close> and reads into \<open>buf\<close>.
\<close>

definition read_u16 :: "env \<Rightarrow> int \<Rightarrow> state \<Rightarrow> (error + unit) \<times> state" where
  "read_u16 env addr s =
     (if addr < 0 \<or> 255 < addr then (Inl ValueError, s)
      else
        let (b0, b1, b2) = buf s;
            a = (word_of_int addr :: byte);
            s1 = s\<lparr>buf := (a, b1, b2)\<rparr>;
            s2 = s1\<lparr>bus_log := bus_log s1 @ [Transfer a]\<rparr>
        in case write_then_readinto env (length (bus_log s1)) a of
             None \<Rightarrow> (Inl OSError, s2)
           | Some bytes \<Rightarrow> (Inr (), s2\<lparr>buf := bytes\<rparr>))"

definition get_exp_msb :: "env \<Rightarrow> int \<Rightarrow> state \<Rightarrow> (error + int \<times> int) \<times> state" where
  "get_exp_msb env register s =
     (case read_u16 env register s of
        (Inl e, s') \<Rightarrow> (Inl e, s')
      | (Inr _, s') \<Rightarrow>
          let (b0, b1, b2) = buf s';
              exponent = drop_bit 4 (uint b0) AND (push_bit 4 1 - 1);
              result_msb = uint b0 AND (push_bit 4 1 - 1);
              result_msb = push_bit 8 result_msb;
              result_msb = result_msb + uint b1
          in (Inr (exponent, result_msb), s'))"

definition get_lsb_counter_crc ::
  "env \<Rightarrow> int \<Rightarrow> state \<Rightarrow> (error + int \<times> int \<times> int) \<times> state" where
  "get_lsb_counter_crc env register s =
     (case read_u16 env register s of
        (Inl e, s') \<Rightarrow> (Inl e, s')
      | (Inr _, s') \<Rightarrow>
          let (b0, b1, b2) = buf s';
              result_lsb = uint b0;
              counter = drop_bit 4 (uint b1) AND (push_bit 4 1 - 1);
              crc = uint b1 AND (push_bit 4 1 - 1)
          in (Inr (result_lsb, counter, crc), s'))"

subsection \<open>From the fields to lux\<close>

text \<open>
  \<open>result_of_addr\<close> and \<open>read_from_fifo\<close> end with the same three assignments
  (\<open>mantissa\<close>, \<open>adc_codes\<close>, \<open>lux\<close>); they are given once, one definition per
  assignment.
\<close>

definition mantissa :: "int \<Rightarrow> int \<Rightarrow> int" where
  "mantissa result_msb result_lsb = push_bit 8 result_msb + result_lsb"

definition adc_codes :: "int \<Rightarrow> int \<Rightarrow> int \<Rightarrow> error + int" where
  "adc_codes exponent result_msb result_lsb = lshift (mantissa result_msb result_lsb) exponent"

definition compute_lux :: "int \<Rightarrow> int \<Rightarrow> int \<Rightarrow> error + pyfloat" where
  "compute_lux exponent result_msb result_lsb =
     (case adc_codes exponent result_msb result_lsb of
        Inl e \<Rightarrow> Inl e
      | Inr a \<Rightarrow> int_times_float a lux_per_code)"

text \<open>
  What a read returns. The statement is \<open>return lux if just_lux else lux, counter, crc\<close>;
  the comma binds weaker than the conditional expression, so the value is the tuple
  \<open>((lux if just_lux else lux), counter, crc)\<close> whatever \<open>just_lux\<close> is. \<open>Scalar\<close>
  is the shape of a bare float.
\<close>

datatype retval = Scalar pyfloat | Triple pyfloat int int

definition read_from_fifo ::
  "env \<Rightarrow> int \<Rightarrow> int \<Rightarrow> bool \<Rightarrow> state \<Rightarrow> (error + retval) \<times> state" where
  "read_from_fifo env register_high regist_low just_lux s =
     (case get_exp_msb env register_high s of
        (Inl e, s1) \<Rightarrow> (Inl e, s1)
      | (Inr (exponent, result_msb), s1) \<Rightarrow>
          (case get_lsb_counter_crc env regist_low s1 of
             (Inl e, s2) \<Rightarrow> (Inl e, s2)
           | (Inr (result_lsb, counter, crc), s2) \<Rightarrow>
               (case compute_lux exponent result_msb result_lsb of
                  Inl e \<Rightarrow> (Inl e, s2)
                | Inr lux \<Rightarrow> (Inr (Triple (if just_lux then lux else lux) counter crc), s2))))"

definition channels :: "int \<rightharpoonup> int \<times> int" where
  "channels = [0 \<mapsto> (FIFO_0_H, FIFO_0_L), 1 \<mapsto> (FIFO_1_H, FIFO_1_L), 2 \<mapsto> (FIFO_2_H, FIFO_2_L)]"

definition read_lux_FIFO :: "env \<Rightarrow> int \<Rightarrow> state \<Rightarrow> (error + retval) \<times> state" where
  "read_lux_FIFO env ident s =
     (case channels ident of
        None \<Rightarrow> (Inl KeyError, s)
      | Some (register_h, register_l) \<Rightarrow> read_from_fifo env register_h register_l True s)"

definition read_result_FIFO :: "env \<Rightarrow> int \<Rightarrow> state \<Rightarrow> (error + retval) \<times> state" where
  "read_result_FIFO env ident s =
     (case channels ident of
        None \<Rightarrow> (Inl KeyError, s)
      | Some (register_h, register_l) \<Rightarrow> read_from_fifo env register_h register_l False s)"

subsection \<open>The result register\<close>

definition conversion_ready_flag :: "env \<Rightarrow> state \<Rightarrow> (error + bool) \<times> state" where
  "conversion_ready_flag env s =
     (let s1 = s\<lparr>bus_log := bus_log s @ [FlagPoll]\<rparr>
      in case flag_bit env (length (bus_log s)) of
           None \<Rightarrow> (Inl OSError, s1)
         | Some b \<Rightarrow> (Inr b, s1))"

definition time_monotonic :: "env \<Rightarrow> state \<Rightarrow> pyfloat \<times> state" where
  "time_monotonic env s = (monotonic env (ticks s), s\<lparr>ticks := Suc (ticks s)\<rparr>)"

text \<open>\<open>time.sleep(d)\<close>: the state is as before; the time that passed shows in the readings.\<close>

definition time_sleep :: "pyfloat \<Rightarrow> state \<Rightarrow> state" where
  "time_sleep d s = s"

text \<open>
  The polling loop of \<open>result_of_addr\<close>. It need not end (a clock that never reaches
  \<open>start_time\<close> under a flag that stays clear): \<open>None\<close> is the run that does not return.
\<close>

partial_function (option) wait_ready ::
  "env \<Rightarrow> pyfloat \<Rightarrow> state \<Rightarrow> ((error + unit) \<times> state) option" where
  "wait_ready env start_time s =
     (case time_monotonic env s of
        (now, s1) \<Rightarrow>
          if float_less now start_time then
            (case conversion_ready_flag env s1 of
               (Inl e, s2) \<Rightarrow> Some (Inl e, s2)
             | (Inr ready, s2) \<Rightarrow>
                 if ready then Some (Inr (), s2)
                 else wait_ready env start_time (time_sleep float_0_001 s2))
          else Some (Inr (), s1))"

declare wait_ready.simps [code]

definition result_of_addr ::
  "env \<Rightarrow> bool \<Rightarrow> state \<Rightarrow> ((error + retval) \<times> state) option" where
  "result_of_addr env just_lux s =
     (case time_monotonic env s of
        (t, s0) \<Rightarrow>
          let start_time = float_add t float_1_1 in
          (case wait_ready env start_time s0 of
             None \<Rightarrow> None
           | Some (Inl e, s') \<Rightarrow> Some (Inl e, s')
           | Some (Inr _, s') \<Rightarrow>
               (case get_exp_msb env RESULT_H s' of
                  (Inl e, s1) \<Rightarrow> Some (Inl e, s1)
                | (Inr (exponent, result_msb), s1) \<Rightarrow>
                    (case get_lsb_counter_crc env RESULT_L s1 of
                       (Inl e, s2) \<Rightarrow> Some (Inl e, s2)
                     | (Inr (result_lsb, counter, crc), s2) \<Rightarrow>
                         (case compute_lux exponent result_msb result_lsb of
                            Inl e \<Rightarrow> Some (Inl e, s2)
                          | Inr lux \<Rightarrow>
                              Some (Inr (Triple (if just_lux then lux else lux) counter crc),
                                    s2))))))"

definition lux :: "env \<Rightarrow> state \<Rightarrow> ((error + retval) \<times> state) option" where
  "lux env s = result_of_addr env True s"

definition result :: "env \<Rightarrow> state \<Rightarrow> ((error + retval) \<times> state) option" where
  "result env s = result_of_addr env False s"

subsection \<open>A device to run the driver on\<close>

text \<open>
  \<open>demo_env\<close> answers by register: the result registers hold the high pair
  \<open>(0x00, 0x01)\<close> and the low pair \<open>(0x00, 0x00)\<close>, FIFO 0 holds a sample with
  exponent 12, FIFO 1 the pairs \<open>(0x10, 0x00)\<close> and \<open>(0xFF, 0x00)\<close>; every other
  address fails on the bus. The flag is never set, and the clock reads \<open>3.0\<close>, \<open>4.0\<close>,
  \<open>4.1\<close> and from then on \<open>10.0\<close>.
\<close>

definition demo_env :: env where
  "demo_env =
     \<lparr>write_then_readinto = (\<lambda>n a.
         if a = 0 then Some (0x00, 0x01, 0x00)
         else if a = 1 then Some (0x00, 0x00, 0x00)
         else if a = 2 then Some (0xC1, 0x23, 0x45)
         else if a = 3 then Some (0x45, 0x6A, 0x00)
         else if a = 4 then Some (0x10, 0x00, 0xFF)
         else if a = 5 then Some (0xFF, 0x00, 0x00)
         else None),
       flag_bit = (\<lambda>n. Some False),
       monotonic = (\<lambda>k.
         if k = 0 then Float False 3 0
         else if k = 1 then Float False 4 0
         else if k = 2 then Float False 2308094809027379 (- 49)
         else Float False 10 0)\<rparr>"

definition demo_state :: state where
  "demo_state = \<lparr>buf = (0, 0, 0), bus_log = [], ticks = 0\<rparr>"

section \<open>Properties\<close>

subsection \<open>Bit fields\<close>

lemma and_15: "(x::int) AND 15 = take_bit 4 x"
  by (simp add: take_bit_eq_mask mask_eq_exp_minus_1)

lemma and_255: "(x::int) AND 255 = take_bit 8 x"
  by (simp add: take_bit_eq_mask mask_eq_exp_minus_1)

lemma uint_byte_bounds: "0 \<le> uint (b::byte) \<and> uint b < 256"
  using uint_lt2p [of b] by simp

lemma uint_byte_take: "take_bit 8 (uint (b::byte)) = uint b"
  using uint_byte_bounds [of b] by (simp add: take_bit_int_eq_self)

lemma nibble_bounds: "0 \<le> (x::int) AND 15 \<and> x AND 15 \<le> 15"
  by (simp add: and_15 take_bit_eq_mod)

lemma push_take_disjoint: "push_bit 8 (x::int) AND take_bit 8 y = 0"
  by (rule bit_eqI) (auto simp: bit_simps)

text \<open>The driver adds the low byte where the data sheet ors it: the bits do not overlap.\<close>

lemma add_is_or: "push_bit 8 (x::int) + uint (b::byte) = push_bit 8 x OR uint b"
  using push_take_disjoint [of x "uint b"] by (simp add: uint_byte_take disjunctive_add_eq_or)

lemma high_roundtrip:
  "push_bit 4 (drop_bit 4 (uint (b::byte)) AND 15) OR (uint b AND 15) = uint b"
proof -
  have "push_bit 4 (take_bit 4 (drop_bit 4 x)) OR take_bit 4 x = take_bit 8 x" for x :: int
    by (rule bit_eqI) (auto simp: bit_simps)
  then show ?thesis by (simp add: and_15 uint_byte_take)
qed

lemma drop_msb: "drop_bit 8 (push_bit 8 (x::int) + uint (b::byte)) = x"
proof -
  have "drop_bit 8 (push_bit 8 x OR take_bit 8 y) = x" for y :: int
    by (rule bit_eqI) (auto simp: bit_simps)
  from this [of "uint b"] show ?thesis by (simp add: add_is_or uint_byte_take)
qed

lemma and_ff: "(push_bit 8 (x::int) + uint (b::byte)) AND 255 = uint b"
proof -
  have "take_bit 8 (push_bit 8 x OR take_bit 8 y) = take_bit 8 y" for y :: int
    by (rule bit_eqI) (auto simp: bit_simps)
  from this [of "uint b"] show ?thesis by (simp add: add_is_or and_255 uint_byte_take)
qed

lemma nibble_of_byte: "drop_bit 4 (uint (b::byte)) AND 15 = drop_bit 4 (uint b)"
proof -
  have "take_bit 4 (drop_bit 4 (take_bit 8 x)) = drop_bit 4 (take_bit 8 x)" for x :: int
    by (rule bit_eqI) (auto simp: bit_simps)
  from this [of "uint b"] show ?thesis by (simp add: and_15 uint_byte_take)
qed

subsection \<open>Rounding to 53 bits\<close>

lemma bit_length_0: "bit_length 0 = 0"
  by (simp add: bit_length.simps)

lemma bit_length_pos: "n \<noteq> 0 \<Longrightarrow> bit_length n = Suc (bit_length (n div 2))"
  by (simp add: bit_length.simps)

lemma bit_length_le: "n < 2 ^ k \<Longrightarrow> bit_length n \<le> k"
proof (induction k arbitrary: n)
  case 0
  then show ?case by (simp add: bit_length_0)
next
  case (Suc k)
  show ?case
  proof (cases "n = 0")
    case True
    then show ?thesis by (simp add: bit_length_0)
  next
    case False
    from Suc.prems have "n div 2 < 2 ^ k" by simp
    then have "bit_length (n div 2) \<le> k" by (rule Suc.IH)
    with False show ?thesis by (simp add: bit_length_pos)
  qed
qed

lemma bit_length_upper: "n < 2 ^ bit_length n"
proof (induction n rule: bit_length.induct)
  case (1 n)
  show ?case
  proof (cases "n = 0")
    case True
    then show ?thesis by (simp add: bit_length_0)
  next
    case False
    with 1 have "n div 2 < 2 ^ bit_length (n div 2)" by simp
    then have "n < 2 * 2 ^ bit_length (n div 2)" by linarith
    with False show ?thesis by (simp add: bit_length_pos)
  qed
qed

lemma bit_length_lower: "n \<noteq> 0 \<Longrightarrow> 2 ^ (bit_length n - 1) \<le> n"
proof (induction n rule: bit_length.induct)
  case (1 n)
  show ?case
  proof (cases "n div 2 = 0")
    case True
    with 1 show ?thesis by (simp add: bit_length_pos bit_length_0)
  next
    case False
    with 1 have "2 ^ (bit_length (n div 2) - 1) \<le> n div 2" by simp
    moreover from False have "bit_length (n div 2) = Suc (bit_length (n div 2) - 1)"
      by (simp add: bit_length_pos)
    ultimately have "2 ^ bit_length (n div 2) \<le> 2 * (n div 2)"
      by (metis mult_le_mono2 power_Suc)
    also have "\<dots> \<le> n" by simp
    finally show ?thesis using 1 by (simp add: bit_length_pos)
  qed
qed

lemma bit_length_mono: "m \<le> n \<Longrightarrow> bit_length m \<le> bit_length n"
  using bit_length_upper [of n] by (intro bit_length_le) simp

lemma round_sig_small: "n < 2 ^ 53 \<Longrightarrow> round_sig n = n"
  using bit_length_le [of n 53] by (simp add: round_sig_def)

lemma round_sig_0: "round_sig 0 = 0"
  by (simp add: round_sig_def bit_length_0)

lemma round_sig_cases:
  assumes "53 < bit_length n"
  shows "round_sig n = (n div 2 ^ (bit_length n - 53)) * 2 ^ (bit_length n - 53)
       \<or> round_sig n = (n div 2 ^ (bit_length n - 53) + 1) * 2 ^ (bit_length n - 53)"
  using assms by (simp add: round_sig_def Let_def)

lemma round_sig_range:
  assumes "n \<noteq> 0"
  shows "2 ^ (bit_length n - 1) \<le> round_sig n \<and> round_sig n \<le> 2 ^ bit_length n"
proof (cases "53 < bit_length n")
  case False
  then have "round_sig n = n" by (simp add: round_sig_def)
  with assms bit_length_lower [of n] bit_length_upper [of n] show ?thesis by simp
next
  case True
  define s where "s = bit_length n - 53"
  define q where "q = n div 2 ^ s"
  from True have L: "bit_length n = 53 + s" "bit_length n - 1 = 52 + s"
    by (simp_all add: s_def)
  have "n < 2 ^ 53 * 2 ^ s"
    using bit_length_upper [of n] by (simp add: L power_add)
  then have qu: "q < 2 ^ 53"
    unfolding q_def by (simp add: less_mult_imp_div_less)
  have "2 ^ 52 * 2 ^ s \<le> n"
    using bit_length_lower [OF assms] by (simp add: L power_add)
  then have ql: "2 ^ 52 \<le> q"
    unfolding q_def by (metis div_le_mono div_mult_self_is_m zero_less_numeral zero_less_power)
  from qu have "(q + 1) * 2 ^ s \<le> 2 ^ 53 * 2 ^ s"
    by (intro mult_le_mono1) simp
  moreover from ql have "2 ^ 52 * 2 ^ s \<le> q * 2 ^ s"
    by (rule mult_le_mono1)
  moreover have "q * 2 ^ s \<le> (q + 1) * 2 ^ s" by simp
  moreover have "round_sig n = q * 2 ^ s \<or> round_sig n = (q + 1) * 2 ^ s"
    using round_sig_cases [OF True] by (simp add: s_def q_def)
  ultimately show ?thesis
    by (auto simp add: L power_add)
qed

lemma round_sig_mono:
  assumes "m \<le> n"
  shows "round_sig m \<le> round_sig n"
proof (cases "m = 0")
  case True
  then show ?thesis by (simp add: round_sig_0)
next
  case False
  with assms have n0: "n \<noteq> 0" by simp
  have le: "bit_length m \<le> bit_length n" using assms by (rule bit_length_mono)
  from False have m1: "1 \<le> bit_length m" by (simp add: bit_length_pos)
  show ?thesis
  proof (cases "bit_length m < bit_length n")
    case True
    have "round_sig m \<le> 2 ^ bit_length m"
      using round_sig_range [OF False] by simp
    also from True have "(2::nat) ^ bit_length m \<le> 2 ^ (bit_length n - 1)"
      by (intro power_increasing) simp_all
    also have "\<dots> \<le> round_sig n"
      using round_sig_range [OF n0] by simp
    finally show ?thesis .
  next
    case same: False
    with le have eq: "bit_length m = bit_length n" by simp
    define s where "s = bit_length n - 53"
    show ?thesis
    proof (cases "s = 0")
      case True
      then show ?thesis using assms by (simp add: round_sig_def eq s_def)
    next
      case s: False
      define qm rm qn rn where "qm = m div 2 ^ s" and "rm = m mod 2 ^ s"
        and "qn = n div 2 ^ s" and "rn = n mod 2 ^ s"
      have rsm: "round_sig m = (if 2 ^ s < 2 * rm \<or> (2 * rm = 2 ^ s \<and> odd qm) then qm + 1 else qm) * 2 ^ s"
        using s by (simp add: round_sig_def eq s_def qm_def rm_def Let_def)
      have rsn: "round_sig n = (if 2 ^ s < 2 * rn \<or> (2 * rn = 2 ^ s \<and> odd qn) then qn + 1 else qn) * 2 ^ s"
        using s by (simp add: round_sig_def s_def qn_def rn_def Let_def)
      have qle: "qm \<le> qn" unfolding qm_def qn_def using assms by (rule div_le_mono)
      show ?thesis
      proof (cases "qm < qn")
        case True
        then have "qm + 1 \<le> qn" by simp
        then have "(qm + 1) * 2 ^ s \<le> qn * 2 ^ s" by (rule mult_le_mono1)
        moreover have "round_sig m \<le> (qm + 1) * 2 ^ s" by (simp add: rsm)
        moreover have "qn * 2 ^ s \<le> round_sig n" by (simp add: rsn)
        ultimately show ?thesis by linarith
      next
        case False
        with qle have qeq: "qm = qn" by simp
        have "m = qm * 2 ^ s + rm"
          unfolding qm_def rm_def by (rule div_mult_mod_eq [symmetric])
        moreover have "n = qn * 2 ^ s + rn"
          unfolding qn_def rn_def by (rule div_mult_mod_eq [symmetric])
        ultimately have "rm \<le> rn" using assms qeq by simp
        then show ?thesis by (auto simp add: rsm rsn qeq)
      qed
    qed
  qed
qed

subsection \<open>The lux computation\<close>

text \<open>
  Binary64 numbers are \<open>2 ^ - 64\<close> apart between \<open>2 ^ - 12\<close> and \<open>2 ^ - 11\<close>, and
  \<open>2 ^ - 56\<close> apart between \<open>2 ^ - 4\<close> and \<open>2 ^ - 3\<close>: a number of 53 bits closer
  than half of that to the literal is the literal's value.
\<close>

lemma lux_per_code_nearest: "\<bar>float_val lux_per_code - 7 / 16000\<bar> < 1 / 2 ^ 65"
  by (simp add: float_val_def lux_per_code_def)

lemma float_0_112_nearest: "\<bar>float_val float_0_112 - 14 / 125\<bar> < 1 / 2 ^ 57"
  by (simp add: float_val_def float_0_112_def)

lemma add_is_or_int:
  assumes "0 \<le> l" "l < 256"
  shows "push_bit 8 (x::int) + l = push_bit 8 x OR l"
proof -
  from assms have "take_bit 8 l = l" by (simp add: take_bit_int_eq_self)
  with push_take_disjoint [of x l] show ?thesis by (simp add: disjunctive_add_eq_or)
qed

lemma mantissa_range:
  assumes "0 \<le> m" "m \<le> 4095" "0 \<le> l" "l \<le> 255"
  shows "0 \<le> mantissa m l \<and> mantissa m l < 2 ^ 20"
  using assms by (simp add: mantissa_def push_bit_eq_mult)

lemma mantissa_mono: "m \<le> m' \<Longrightarrow> l \<le> l' \<Longrightarrow> mantissa m l \<le> mantissa m' l'"
  by (simp add: mantissa_def push_bit_eq_mult)

lemma adc_codes_ok: "0 \<le> e \<Longrightarrow> adc_codes e m l = Inr (push_bit (nat e) (mantissa m l))"
  by (simp add: adc_codes_def lshift_def)

lemma push_bit_range:
  assumes "0 \<le> (x::int)" "x < 2 ^ 20" "k \<le> n"
  shows "0 \<le> push_bit k x \<and> push_bit k x < 2 ^ (20 + n)"
proof -
  have "x * 2 ^ k < 2 ^ 20 * 2 ^ n"
  proof (rule mult_less_le_imp_less)
    show "(2::int) ^ k \<le> 2 ^ n" using assms(3) by (intro power_increasing) simp_all
  qed (use assms in simp_all)
  with assms show ?thesis by (simp add: push_bit_eq_mult power_add)
qed

lemma push_bit_mono:
  assumes "0 \<le> (x::int)" "x \<le> y" "k \<le> n"
  shows "push_bit k x \<le> push_bit n y"
proof -
  have "x * 2 ^ k \<le> y * 2 ^ n"
  proof (rule mult_mono)
    show "(2::int) ^ k \<le> 2 ^ n" using assms(3) by (intro power_increasing) simp_all
  qed (use assms in simp_all)
  then show ?thesis by (simp add: push_bit_eq_mult)
qed

lemma float_of_int_small:
  assumes "0 \<le> a" "a < 2 ^ 53"
  shows "float_of_int a = Inr (Float False (nat a) 0)"
proof -
  from assms have small: "nat a < 2 ^ 53" by (simp add: nat_less_iff)
  then have "round_sig (nat \<bar>a\<bar>) = nat a" using assms by (simp add: round_sig_small)
  moreover have "\<not> (2::nat) ^ 1024 \<le> nat a" using small by simp
  ultimately show ?thesis using assms by (simp add: float_of_int_def)
qed

lemma compute_lux_ok:
  assumes "0 \<le> e" "0 \<le> push_bit (nat e) (mantissa m l)" "push_bit (nat e) (mantissa m l) < 2 ^ 53"
  shows "compute_lux e m l =
           Inr (float_mul (Float False (nat (push_bit (nat e) (mantissa m l))) 0) lux_per_code)"
  using assms by (simp add: compute_lux_def adc_codes_ok int_times_float_def float_of_int_small)

lemma float_val_lux:
  "float_val (float_mul (Float False a 0) lux_per_code) =
     of_nat (round_sig (a * 8070450532247929)) / 2 ^ 64"
  by (simp add: float_val_def float_mul_def lux_per_code_def)

lemma float_val_lux_mono:
  assumes "a \<le> b"
  shows "float_val (float_mul (Float False a 0) lux_per_code)
       \<le> float_val (float_mul (Float False b 0) lux_per_code)"
proof -
  from assms have "a * 8070450532247929 \<le> b * 8070450532247929" by simp
  then have "round_sig (a * 8070450532247929) \<le> round_sig (b * 8070450532247929)"
    by (rule round_sig_mono)
  then show ?thesis by (simp add: float_val_lux divide_right_mono)
qed

lemma int_times_float_small:
  assumes "0 \<le> a" "a < 2 ^ 53"
  shows "int_times_float a x = Inr (float_mul (Float False (nat a) 0) x)"
  using assms by (simp add: int_times_float_def float_of_int_small)

lemma round_sig_256: "round_sig (256 * 8070450532247929) = 256 * 8070450532247929"
  by (simp add: round_sig_def bit_length.simps)

lemma lux_256_is_0_112:
  "float_val (float_mul (Float False 256 0) lux_per_code) = float_val float_0_112"
proof -
  have "float_val (float_mul (Float False 256 0) lux_per_code)
      = of_nat (round_sig (256 * 8070450532247929)) / 2 ^ 64"
    by (rule float_val_lux)
  also have "round_sig (256 * 8070450532247929) = 256 * 8070450532247929"
    by (rule round_sig_256)
  also have "of_nat (256 * 8070450532247929) / 2 ^ 64 = float_val float_0_112"
    by (simp add: float_val_def float_0_112_def)
  finally show ?thesis .
qed

subsection \<open>A register read that the bus answers\<close>

lemma read_u16_ok:
  assumes "0 \<le> r" "r \<le> 255"
    and "write_then_readinto env (length (bus_log s)) (word_of_int r) = Some bytes"
  shows "read_u16 env r s =
           (Inr (), s\<lparr>buf := bytes, bus_log := bus_log s @ [Transfer (word_of_int r)]\<rparr>)"
  using assms by (simp add: read_u16_def Let_def split: prod.splits)

lemma get_exp_msb_ok:
  assumes "0 \<le> r" "r \<le> 255"
    and "write_then_readinto env (length (bus_log s)) (word_of_int r) = Some (b0, b1, b2)"
  shows "get_exp_msb env r s =
           (Inr (drop_bit 4 (uint b0) AND 15, push_bit 8 (uint b0 AND 15) + uint b1),
            s\<lparr>buf := (b0, b1, b2), bus_log := bus_log s @ [Transfer (word_of_int r)]\<rparr>)"
  by (simp add: get_exp_msb_def read_u16_ok [OF assms])

lemma get_lsb_counter_crc_ok:
  assumes "0 \<le> r" "r \<le> 255"
    and "write_then_readinto env (length (bus_log s)) (word_of_int r) = Some (b0, b1, b2)"
  shows "get_lsb_counter_crc env r s =
           (Inr (uint b0, drop_bit 4 (uint b1) AND 15, uint b1 AND 15),
            s\<lparr>buf := (b0, b1, b2), bus_log := bus_log s @ [Transfer (word_of_int r)]\<rparr>)"
  by (simp add: get_lsb_counter_crc_def read_u16_ok [OF assms])

lemma decoded_msb_range: "0 \<le> push_bit 8 (uint (h0::byte) AND 15) + uint (h1::byte)
   \<and> push_bit 8 (uint h0 AND 15) + uint h1 \<le> 4095"
proof -
  have "0 \<le> push_bit 8 a + b \<and> push_bit 8 a + b \<le> 4095"
    if "0 \<le> a \<and> a \<le> 15" "0 \<le> b \<and> b < 256" for a b :: int
    using that by (simp add: push_bit_eq_mult)
  from this [OF nibble_bounds uint_byte_bounds] show ?thesis .
qed

lemma decoded_adc_range:
  assumes "0 \<le> e" "e \<le> 15" "0 \<le> m" "m \<le> 4095" "0 \<le> l" "l \<le> 255"
  shows "0 \<le> push_bit (nat e) (mantissa m l) \<and> push_bit (nat e) (mantissa m l) < 2 ^ 53"
proof -
  from assms have "nat e \<le> 15" by simp
  with mantissa_range [OF assms(3-6)]
  have "0 \<le> push_bit (nat e) (mantissa m l) \<and> push_bit (nat e) (mantissa m l) < 2 ^ (20 + 15)"
    by (intro push_bit_range) simp_all
  then show ?thesis by simp
qed

lemma compute_lux_decoded:
  assumes "0 \<le> e" "e \<le> 15" "0 \<le> m" "m \<le> 4095" "0 \<le> l" "l \<le> 255"
  shows "compute_lux e m l =
           Inr (float_mul (Float False (nat (push_bit (nat e) (mantissa m l))) 0) lux_per_code)"
  using decoded_adc_range [OF assms] assms(1) by (simp add: compute_lux_ok)

lemma read_from_fifo_ok:
  assumes "0 \<le> rh" "rh \<le> 255" "0 \<le> rl" "rl \<le> 255"
    and "write_then_readinto env (length (bus_log s)) (word_of_int rh) = Some (h0, h1, h2)"
    and "write_then_readinto env (Suc (length (bus_log s))) (word_of_int rl) = Some (l0, l1, l2)"
  shows "read_from_fifo env rh rl just_lux s =
           (Inr (Triple
              (float_mul
                 (Float False
                    (nat (push_bit (nat (drop_bit 4 (uint h0) AND 15))
                            (mantissa (push_bit 8 (uint h0 AND 15) + uint h1) (uint l0)))) 0)
                 lux_per_code)
              (drop_bit 4 (uint l1) AND 15) (uint l1 AND 15)),
            s\<lparr>buf := (l0, l1, l2),
              bus_log := bus_log s @ [Transfer (word_of_int rh), Transfer (word_of_int rl)]\<rparr>)"
proof -
  let ?s1 = "s\<lparr>buf := (h0, h1, h2), bus_log := bus_log s @ [Transfer (word_of_int rh)]\<rparr>"
  have high: "get_exp_msb env rh s =
      (Inr (drop_bit 4 (uint h0) AND 15, push_bit 8 (uint h0 AND 15) + uint h1), ?s1)"
    using assms(1,2,5) by (rule get_exp_msb_ok)
  have "write_then_readinto env (length (bus_log ?s1)) (word_of_int rl) = Some (l0, l1, l2)"
    using assms(6) by simp
  with assms(3,4) have low: "get_lsb_counter_crc env rl ?s1 =
      (Inr (uint l0, drop_bit 4 (uint l1) AND 15, uint l1 AND 15),
       ?s1\<lparr>buf := (l0, l1, l2), bus_log := bus_log ?s1 @ [Transfer (word_of_int rl)]\<rparr>)"
    by (rule get_lsb_counter_crc_ok)
  have lux: "compute_lux (drop_bit 4 (uint h0) AND 15)
       (push_bit 8 (uint h0 AND 15) + uint h1) (uint l0) =
     Inr (float_mul
            (Float False
               (nat (push_bit (nat (drop_bit 4 (uint h0) AND 15))
                       (mantissa (push_bit 8 (uint h0 AND 15) + uint h1) (uint l0)))) 0)
            lux_per_code)"
    using nibble_bounds [of "drop_bit 4 (uint h0)"] decoded_msb_range [of h0 h1]
      uint_byte_bounds [of l0]
    by (intro compute_lux_decoded) simp_all
  show ?thesis
    by (simp only: read_from_fifo_def high low lux prod.case sum.case if_cancel) simp
qed

text \<open>
  C3. Whatever pair \<open>(byte0, byte1)\<close> the device answers with, \<open>get_exp_msb\<close> returns
  \<open>exponent = (byte0 >> 4) & 0xF\<close> and \<open>result_msb = ((byte0 & 0xF) << 8) | byte1\<close>, and
  \<open>get_lsb_counter_crc\<close> returns \<open>result_lsb = byte0\<close>, \<open>counter = (byte1 >> 4) & 0xF\<close>
  and \<open>crc = byte1 & 0xF\<close>.
\<close>

theorem decode_fields:
  assumes "0 \<le> r" "r \<le> 255"
    and "write_then_readinto env (length (bus_log s)) (word_of_int r) = Some (byte0, byte1, byte2)"
  shows "fst (get_exp_msb env r s) =
           Inr (drop_bit 4 (uint byte0) AND 0xF, push_bit 8 (uint byte0 AND 0xF) OR uint byte1)
         \<and> fst (get_lsb_counter_crc env r s) =
           Inr (uint byte0, drop_bit 4 (uint byte1) AND 0xF, uint byte1 AND 0xF)"
  by (simp only: get_exp_msb_ok [OF assms] get_lsb_counter_crc_ok [OF assms] add_is_or
      fst_conv simp_thms)

theorem decode_fields_witness:
  "(0::int) \<le> 2 \<and> (2::int) \<le> 255
   \<and> write_then_readinto demo_env (length (bus_log demo_state)) (word_of_int 2)
       = Some (0xC1, 0x23, 0x45)
   \<and> fst (get_exp_msb demo_env 2 demo_state) = Inr (12, 0x123)
   \<and> fst (get_lsb_counter_crc demo_env 2 demo_state) = Inr (0xC1, 2, 3)"
  using decode_fields [of 2 demo_env demo_state "0xC1" "0x23" "0x45"]
  by (simp add: demo_env_def demo_state_def)

text \<open>
  C6. The fields lose nothing. From \<open>(exponent, result_msb)\<close> the high pair comes back
  as \<open>b0 = (exponent << 4) | (result_msb >> 8)\<close> and \<open>b1 = result_msb & 0xFF\<close>; from
  \<open>(result_lsb, counter, crc)\<close> the low pair comes back as \<open>b0 = result_lsb\<close> and
  \<open>b1 = (counter << 4) | crc\<close>.
\<close>

theorem fields_roundtrip:
  assumes "0 \<le> r" "r \<le> 255"
    and "write_then_readinto env (length (bus_log s)) (word_of_int r) = Some (b0, b1, b2)"
  shows "(\<exists>exponent result_msb.
            fst (get_exp_msb env r s) = Inr (exponent, result_msb)
            \<and> push_bit 4 exponent OR drop_bit 8 result_msb = uint b0
            \<and> result_msb AND 0xFF = uint b1)
         \<and> (\<exists>result_lsb counter crc.
            fst (get_lsb_counter_crc env r s) = Inr (result_lsb, counter, crc)
            \<and> result_lsb = uint b0
            \<and> push_bit 4 counter OR crc = uint b1)"
proof -
  let ?e = "drop_bit 4 (uint b0) AND 15"
  let ?m = "push_bit 8 (uint b0 AND 15) + uint b1"
  let ?c = "drop_bit 4 (uint b1) AND 15"
  let ?x = "uint b1 AND 15"
  have "fst (get_exp_msb env r s) = Inr (?e, ?m)"
    by (simp only: get_exp_msb_ok [OF assms] fst_conv)
  moreover have "push_bit 4 ?e OR drop_bit 8 ?m = uint b0"
    by (simp only: drop_msb high_roundtrip)
  moreover have "?m AND 0xFF = uint b1"
    by (rule and_ff)
  ultimately have high: "\<exists>exponent result_msb.
      fst (get_exp_msb env r s) = Inr (exponent, result_msb)
      \<and> push_bit 4 exponent OR drop_bit 8 result_msb = uint b0
      \<and> result_msb AND 0xFF = uint b1"
    by blast
  have "fst (get_lsb_counter_crc env r s) = Inr (uint b0, ?c, ?x)"
    by (simp only: get_lsb_counter_crc_ok [OF assms] fst_conv)
  moreover have "push_bit 4 ?c OR ?x = uint b1"
    by (rule high_roundtrip)
  ultimately have low: "\<exists>result_lsb counter crc.
      fst (get_lsb_counter_crc env r s) = Inr (result_lsb, counter, crc)
      \<and> result_lsb = uint b0
      \<and> push_bit 4 counter OR crc = uint b1"
    by blast
  from high low show ?thesis by (rule conjI)
qed

theorem fields_roundtrip_witness:
  "(0::int) \<le> 3 \<and> (3::int) \<le> 255
   \<and> write_then_readinto demo_env (length (bus_log demo_state)) (word_of_int 3)
       = Some (0x45, 0x6A, 0x00)
   \<and> (\<exists>exponent result_msb.
        fst (get_exp_msb demo_env 3 demo_state) = Inr (exponent, result_msb)
        \<and> push_bit 4 exponent OR drop_bit 8 result_msb = 0x45
        \<and> result_msb AND 0xFF = 0x6A)
   \<and> (\<exists>result_lsb counter crc.
        fst (get_lsb_counter_crc demo_env 3 demo_state) = Inr (result_lsb, counter, crc)
        \<and> result_lsb = 0x45
        \<and> push_bit 4 counter OR crc = 0x6A)"
  using fields_roundtrip [of 3 demo_env demo_state "0x45" "0x6A" "0x00"]
  by (simp add: demo_env_def demo_state_def)

subsection \<open>The lux value\<close>

text \<open>
  C9. For an exponent from 0 to 11, a \<open>result_msb\<close> from 0 to 4095 and a \<open>result_lsb\<close>
  from 0 to 255, \<open>adc_codes\<close> is \<open>((result_msb << 8) | result_lsb) << exponent\<close>, it is
  not negative and it is below \<open>2 ^ 31\<close>.
\<close>

theorem adc_codes_below_2_31:
  assumes "0 \<le> exponent" "exponent \<le> 11"
    and "0 \<le> result_msb" "result_msb \<le> 4095"
    and "0 \<le> result_lsb" "result_lsb \<le> 255"
  shows "adc_codes exponent result_msb result_lsb =
           Inr (push_bit (nat exponent) (push_bit 8 result_msb OR result_lsb))
         \<and> 0 \<le> push_bit (nat exponent) (push_bit 8 result_msb OR result_lsb)
         \<and> push_bit (nat exponent) (push_bit 8 result_msb OR result_lsb) < 2 ^ 31"
proof -
  have m: "mantissa result_msb result_lsb = push_bit 8 result_msb OR result_lsb"
    using assms(5,6) by (simp add: mantissa_def add_is_or_int)
  from assms(1,2) have "nat exponent \<le> 11" by simp
  with mantissa_range [OF assms(3-6)]
  have "0 \<le> push_bit (nat exponent) (mantissa result_msb result_lsb)
      \<and> push_bit (nat exponent) (mantissa result_msb result_lsb) < 2 ^ (20 + 11)"
    by (intro push_bit_range) simp_all
  with adc_codes_ok [OF assms(1), of result_msb result_lsb] show ?thesis
    by (simp add: m)
qed

theorem adc_codes_below_2_31_witness:
  "(0::int) \<le> 11 \<and> (11::int) \<le> 11 \<and> (0::int) \<le> 4095 \<and> (4095::int) \<le> 4095
   \<and> (0::int) \<le> 255 \<and> (255::int) \<le> 255
   \<and> adc_codes 11 4095 255 = Inr 2147481600 \<and> (2147481600::int) < 2 ^ 31"
  using adc_codes_below_2_31 [of 11 4095 255] by simp

text \<open>
  C2. When the bus answers the high register with \<open>(h0, h1)\<close> and the low register with
  \<open>(l0, l1)\<close>, the lux that \<open>read_from_fifo\<close> returns is what \<open>compute_lux\<close> makes of
  the decoded fields, and that is the binary64 product of the integer
  \<open>((result_msb << 8) | result_lsb) << exponent\<close> and the literal \<open>.0004375\<close>. For the
  high pair \<open>(0x00, 0x01)\<close> and the low byte \<open>0x00\<close> it is the float that the literal
  \<open>0.112\<close> denotes.
\<close>

theorem lux_formula:
  assumes "0 \<le> rh" "rh \<le> 255" "0 \<le> rl" "rl \<le> 255"
    and "write_then_readinto env (length (bus_log s)) (word_of_int rh) = Some (h0, h1, h2)"
    and "write_then_readinto env (Suc (length (bus_log s))) (word_of_int rl) = Some (l0, l1, l2)"
  shows "\<exists>exponent result_msb result_lsb counter crc lux_value.
           fst (get_exp_msb env rh s) = Inr (exponent, result_msb)
         \<and> fst (get_lsb_counter_crc env rl (snd (get_exp_msb env rh s)))
             = Inr (result_lsb, counter, crc)
         \<and> fst (read_from_fifo env rh rl just_lux s) = Inr (Triple lux_value counter crc)
         \<and> compute_lux exponent result_msb result_lsb = Inr lux_value
         \<and> int_times_float
               (push_bit (nat exponent) (push_bit 8 result_msb OR result_lsb)) lux_per_code
             = Inr lux_value
         \<and> (h0 = 0x00 \<and> h1 = 0x01 \<and> l0 = 0x00
              \<longrightarrow> float_val lux_value = float_val float_0_112)"
proof -
  let ?e = "drop_bit 4 (uint h0) AND 15"
  let ?m = "push_bit 8 (uint h0 AND 15) + uint h1"
  let ?l = "uint l0"
  let ?a = "push_bit (nat ?e) (mantissa ?m ?l)"
  let ?lux = "float_mul (Float False (nat ?a) 0) lux_per_code"
  let ?s1 = "s\<lparr>buf := (h0, h1, h2), bus_log := bus_log s @ [Transfer (word_of_int rh)]\<rparr>"
  have e: "0 \<le> ?e \<and> ?e \<le> 15" by (rule nibble_bounds)
  have m: "0 \<le> ?m \<and> ?m \<le> 4095" by (rule decoded_msb_range)
  have l: "0 \<le> ?l \<and> ?l \<le> 255" using uint_byte_bounds [of l0] by simp
  have high: "get_exp_msb env rh s = (Inr (?e, ?m), ?s1)"
    using assms(1,2,5) by (rule get_exp_msb_ok)
  have "write_then_readinto env (length (bus_log ?s1)) (word_of_int rl) = Some (l0, l1, l2)"
    using assms(6) by simp
  with assms(3,4) have low: "fst (get_lsb_counter_crc env rl ?s1)
      = Inr (?l, drop_bit 4 (uint l1) AND 15, uint l1 AND 15)"
    by (simp only: get_lsb_counter_crc_ok fst_conv)
  have fifo: "fst (read_from_fifo env rh rl just_lux s)
      = Inr (Triple ?lux (drop_bit 4 (uint l1) AND 15) (uint l1 AND 15))"
    by (simp only: read_from_fifo_ok [OF assms] fst_conv)
  have comp: "compute_lux ?e ?m ?l = Inr ?lux"
    using e m l by (intro compute_lux_decoded) simp_all
  have "mantissa ?m ?l = push_bit 8 ?m OR ?l"
    by (simp only: mantissa_def add_is_or)
  moreover have "0 \<le> ?a \<and> ?a < 2 ^ 53"
    using e m l by (intro decoded_adc_range) simp_all
  ultimately have times: "int_times_float (push_bit (nat ?e) (push_bit 8 ?m OR ?l)) lux_per_code
      = Inr ?lux"
    by (simp only: int_times_float_small)
  have scen: "float_val ?lux = float_val float_0_112" if "h0 = 0x00 \<and> h1 = 0x01 \<and> l0 = 0x00"
  proof -
    from that have "?lux = float_mul (Float False 256 0) lux_per_code"
      by (simp add: mantissa_def)
    then show ?thesis by (simp only: lux_256_is_0_112)
  qed
  from high low fifo comp times scen show ?thesis
    by (simp only: fst_conv snd_conv) blast
qed

theorem lux_formula_witness:
  "(0::int) \<le> 0 \<and> (0::int) \<le> 255 \<and> (0::int) \<le> 1 \<and> (1::int) \<le> 255
   \<and> write_then_readinto demo_env (length (bus_log demo_state)) (word_of_int 0)
       = Some (0x00, 0x01, 0x00)
   \<and> write_then_readinto demo_env (Suc (length (bus_log demo_state))) (word_of_int 1)
       = Some (0x00, 0x00, 0x00)
   \<and> (\<exists>lux_value.
          fst (read_from_fifo demo_env 0 1 True demo_state) = Inr (Triple lux_value 0 0)
          \<and> compute_lux 0 1 0 = Inr lux_value
          \<and> int_times_float 256 lux_per_code = Inr lux_value
          \<and> float_val lux_value = float_val float_0_112)"
  using lux_formula [of 0 1 demo_env demo_state "0x00" "0x01" "0x00" "0x00" "0x00" "0x00" True]
  by (simp add: demo_env_def demo_state_def get_exp_msb_def get_lsb_counter_crc_def
      read_u16_def)

text \<open>
  C7. On exponents from 0 to 11, \<open>result_msb\<close> from 0 to 4095 and \<open>result_lsb\<close> from 0
  to 255, \<open>compute_lux\<close> returns a float, and the float does not decrease when
  \<open>result_msb\<close> grows, when \<open>result_lsb\<close> grows or when the exponent grows, the other
  two arguments staying as they are.
\<close>

theorem compute_lux_monotone:
  assumes "0 \<le> e" "e \<le> e'" "e' \<le> 11"
    and "0 \<le> m" "m \<le> m'" "m' \<le> 4095"
    and "0 \<le> l" "l \<le> l'" "l' \<le> 255"
  shows "(\<exists>x y. compute_lux e m l = Inr x \<and> compute_lux e m' l = Inr y
                 \<and> float_val x \<le> float_val y)
       \<and> (\<exists>x y. compute_lux e m l = Inr x \<and> compute_lux e m l' = Inr y
                 \<and> float_val x \<le> float_val y)
       \<and> (\<exists>x y. compute_lux e m l = Inr x \<and> compute_lux e' m l = Inr y
                 \<and> float_val x \<le> float_val y)"
proof -
  have step: "\<exists>x y. compute_lux a b c = Inr x \<and> compute_lux a' b' c' = Inr y
                    \<and> float_val x \<le> float_val y"
    if "0 \<le> a" "a \<le> a'" "a' \<le> 11" "0 \<le> b" "b \<le> b'" "b' \<le> 4095"
      "0 \<le> c" "c \<le> c'" "c' \<le> 255" for a a' b b' c c'
  proof -
    from that have x: "compute_lux a b c =
        Inr (float_mul (Float False (nat (push_bit (nat a) (mantissa b c))) 0) lux_per_code)"
      by (intro compute_lux_decoded) simp_all
    from that have y: "compute_lux a' b' c' =
        Inr (float_mul (Float False (nat (push_bit (nat a') (mantissa b' c'))) 0) lux_per_code)"
      by (intro compute_lux_decoded) simp_all
    from that have "0 \<le> mantissa b c" by (simp add: mantissa_def push_bit_eq_mult)
    moreover from that have "mantissa b c \<le> mantissa b' c'" by (intro mantissa_mono)
    moreover from that have "nat a \<le> nat a'" by simp
    ultimately have "push_bit (nat a) (mantissa b c) \<le> push_bit (nat a') (mantissa b' c')"
      by (rule push_bit_mono)
    then have "nat (push_bit (nat a) (mantissa b c)) \<le> nat (push_bit (nat a') (mantissa b' c'))"
      by simp
    then show ?thesis unfolding x y by (simp add: float_val_lux_mono)
  qed
  from assms show ?thesis by (intro conjI step) simp_all
qed

theorem compute_lux_monotone_witness:
  "(0::int) \<le> 1 \<and> (1::int) \<le> 2 \<and> (2::int) \<le> 11
   \<and> (0::int) \<le> 16 \<and> (16::int) \<le> 17 \<and> (17::int) \<le> 4095
   \<and> (0::int) \<le> 254 \<and> (254::int) \<le> 255 \<and> (255::int) \<le> 255
   \<and> (\<exists>x y. compute_lux 1 16 254 = Inr x \<and> compute_lux 1 17 254 = Inr y
              \<and> float_val x \<le> float_val y)
   \<and> (\<exists>x y. compute_lux 1 16 254 = Inr x \<and> compute_lux 1 16 255 = Inr y
              \<and> float_val x \<le> float_val y)
   \<and> (\<exists>x y. compute_lux 1 16 254 = Inr x \<and> compute_lux 2 16 254 = Inr y
              \<and> float_val x \<le> float_val y)"
proof -
  have h: "(0::int) \<le> 1" "(1::int) \<le> 2" "(2::int) \<le> 11"
    "(0::int) \<le> 16" "(16::int) \<le> 17" "(17::int) \<le> 4095"
    "(0::int) \<le> 254" "(254::int) \<le> 255" "(255::int) \<le> 255"
    by simp_all
  from compute_lux_monotone [OF h] h show ?thesis by blast
qed

text \<open>
  C8. Whatever the bus answers, the decoded \<open>counter\<close>, \<open>crc\<close> and \<open>exponent\<close> lie
  between 0 and 15. The exponent is the top nibble of the first byte as it came, 12 to
  15 included; \<open>adc_codes\<close> shifts the mantissa by it all the same, and the read returns
  the lux computed from that.
\<close>

theorem decoded_ranges:
  assumes "0 \<le> rh" "rh \<le> 255" "0 \<le> rl" "rl \<le> 255"
    and "write_then_readinto env (length (bus_log s)) (word_of_int rh) = Some (h0, h1, h2)"
    and "write_then_readinto env (Suc (length (bus_log s))) (word_of_int rl) = Some (l0, l1, l2)"
  shows "\<exists>exponent result_msb result_lsb counter crc adc lux_value.
           fst (get_exp_msb env rh s) = Inr (exponent, result_msb)
         \<and> fst (get_lsb_counter_crc env rl (snd (get_exp_msb env rh s)))
             = Inr (result_lsb, counter, crc)
         \<and> 0 \<le> counter \<and> counter \<le> 15 \<and> 0 \<le> crc \<and> crc \<le> 15
         \<and> 0 \<le> exponent \<and> exponent \<le> 15
         \<and> exponent = drop_bit 4 (uint h0)
         \<and> adc_codes exponent result_msb result_lsb = Inr adc
         \<and> adc = push_bit (nat exponent) (mantissa result_msb result_lsb)
         \<and> int_times_float adc lux_per_code = Inr lux_value
         \<and> fst (read_from_fifo env rh rl just_lux s) = Inr (Triple lux_value counter crc)"
proof -
  let ?e = "drop_bit 4 (uint h0) AND 15"
  let ?m = "push_bit 8 (uint h0 AND 15) + uint h1"
  let ?l = "uint l0"
  let ?c = "drop_bit 4 (uint l1) AND 15"
  let ?x = "uint l1 AND 15"
  let ?a = "push_bit (nat ?e) (mantissa ?m ?l)"
  let ?lux = "float_mul (Float False (nat ?a) 0) lux_per_code"
  let ?s1 = "s\<lparr>buf := (h0, h1, h2), bus_log := bus_log s @ [Transfer (word_of_int rh)]\<rparr>"
  have e: "0 \<le> ?e \<and> ?e \<le> 15" by (rule nibble_bounds)
  have c: "0 \<le> ?c \<and> ?c \<le> 15" by (rule nibble_bounds)
  have x: "0 \<le> ?x \<and> ?x \<le> 15" by (rule nibble_bounds)
  have m: "0 \<le> ?m \<and> ?m \<le> 4095" by (rule decoded_msb_range)
  have l: "0 \<le> ?l \<and> ?l \<le> 255" using uint_byte_bounds [of l0] by simp
  have high: "get_exp_msb env rh s = (Inr (?e, ?m), ?s1)"
    using assms(1,2,5) by (rule get_exp_msb_ok)
  have "write_then_readinto env (length (bus_log ?s1)) (word_of_int rl) = Some (l0, l1, l2)"
    using assms(6) by simp
  with assms(3,4) have low: "fst (get_lsb_counter_crc env rl ?s1) = Inr (?l, ?c, ?x)"
    by (simp only: get_lsb_counter_crc_ok fst_conv)
  have fifo: "fst (read_from_fifo env rh rl just_lux s) = Inr (Triple ?lux ?c ?x)"
    by (simp only: read_from_fifo_ok [OF assms] fst_conv)
  have adc: "adc_codes ?e ?m ?l = Inr ?a"
    using e by (intro adc_codes_ok) simp
  have "0 \<le> ?a \<and> ?a < 2 ^ 53"
    using e m l by (intro decoded_adc_range) simp_all
  then have times: "int_times_float ?a lux_per_code = Inr ?lux"
    by (simp only: int_times_float_small)
  have same: "?e = drop_bit 4 (uint h0)" by (rule nibble_of_byte)
  from high low fifo adc times e c x same show ?thesis
    by (simp only: fst_conv snd_conv) blast
qed

theorem decoded_ranges_witness:
  "(0::int) \<le> 2 \<and> (2::int) \<le> 255 \<and> (0::int) \<le> 3 \<and> (3::int) \<le> 255
   \<and> write_then_readinto demo_env (length (bus_log demo_state)) (word_of_int 2)
       = Some (0xC1, 0x23, 0x45)
   \<and> write_then_readinto demo_env (Suc (length (bus_log demo_state))) (word_of_int 3)
       = Some (0x45, 0x6A, 0x00)
   \<and> (\<exists>lux_value. fst (get_exp_msb demo_env 2 demo_state) = Inr (12, 0x123)
          \<and> adc_codes 12 0x123 0x45 = Inr (push_bit 12 0x12345)
          \<and> int_times_float (push_bit 12 0x12345) lux_per_code = Inr lux_value
          \<and> fst (read_from_fifo demo_env 2 3 False demo_state) = Inr (Triple lux_value 6 10))"
  using decoded_ranges [of 2 3 demo_env demo_state "0xC1" "0x23" "0x45" "0x45" "0x6A" "0x00" False]
  by (simp add: demo_env_def demo_state_def get_exp_msb_def get_lsb_counter_crc_def
      read_u16_def mantissa_def)

subsection \<open>The FIFO accessors\<close>

lemma read_from_fifo_flag:
  "read_from_fifo env register_high regist_low True s =
   read_from_fifo env register_high regist_low False s"
  by (simp add: read_from_fifo_def split: prod.splits sum.splits)

text \<open>
  C5. A slot other than 0, 1 or 2 is not a key of \<open>channels\<close>: \<open>read_lux_FIFO\<close> and
  \<open>read_result_FIFO\<close> raise KeyError, the error Python has for the bad argument, and the
  state is the one they were called in, so nothing went over the bus.
\<close>

theorem fifo_slot_out_of_range:
  assumes "ident \<notin> {0, 1, 2}"
  shows "read_lux_FIFO env ident s = (Inl KeyError, s)
         \<and> read_result_FIFO env ident s = (Inl KeyError, s)
         \<and> bus_log (snd (read_lux_FIFO env ident s)) = bus_log s
         \<and> bus_log (snd (read_result_FIFO env ident s)) = bus_log s"
  using assms by (simp add: read_lux_FIFO_def read_result_FIFO_def channels_def)

theorem fifo_slot_out_of_range_witness:
  "(3::int) \<notin> {0, 1, 2}
   \<and> read_lux_FIFO demo_env 3 demo_state = (Inl KeyError, demo_state)
   \<and> read_result_FIFO demo_env 3 demo_state = (Inl KeyError, demo_state)
   \<and> bus_log (snd (read_lux_FIFO demo_env 3 demo_state)) = []
   \<and> bus_log (snd (read_result_FIFO demo_env 3 demo_state)) = []"
  using fifo_slot_out_of_range [of 3 demo_env demo_state]
  by (simp add: demo_state_def)

text \<open>
  C10. \<open>read_lux_FIFO\<close> and \<open>read_result_FIFO\<close> differ in the \<open>just_lux\<close> flag they pass
  and in nothing else, and \<open>read_from_fifo\<close> returns the same tuple for either flag: on
  the same device, from the same state, the two return the same value and leave the same
  state.
\<close>

theorem fifo_just_lux_irrelevant:
  "read_lux_FIFO env ident s = read_result_FIFO env ident s"
  by (simp add: read_lux_FIFO_def read_result_FIFO_def read_from_fifo_flag
      split: option.splits prod.splits)

subsection \<open>The result register\<close>

text \<open>
  Binary64 numbers are \<open>2 ^ - 52\<close> apart between 1 and 2. The deadline is a rounded
  sum: from the reading \<open>3.0\<close> it is the float \<open>4.1\<close>, which lies below \<open>41 / 10\<close>.
\<close>

lemma float_1_1_nearest: "\<bar>float_val float_1_1 - 11 / 10\<bar> < 1 / 2 ^ 53"
  by (simp add: float_val_def float_1_1_def)

lemma round_sig_tie: "round_sig 9232379236109517 = 9232379236109516"
  by (simp add: round_sig_def bit_length.simps)

lemma deadline_from_3:
  "float_add (Float False 3 0) float_1_1 = Float False 9232379236109516 (- 51)"
  by (simp add: float_add_def float_1_1_def round_sig_tie)

lemma deadline_from_3_val:
  "float_val (float_add (Float False 3 0) float_1_1)
     = float_val (Float False 2308094809027379 (- 49))
   \<and> float_val (float_add (Float False 3 0) float_1_1) < 41 / 10"
  by (simp add: deadline_from_3 float_val_def)

lemma wait_ready_timeout:
  assumes "\<forall>j<n. float_less (monotonic env (ticks s + j)) start_time"
    and "\<not> float_less (monotonic env (ticks s + n)) start_time"
    and "\<forall>j<n. flag_bit env (length (bus_log s) + j) = Some False"
  shows "wait_ready env start_time s =
           Some (Inr (), s\<lparr>ticks := ticks s + n + 1,
                             bus_log := bus_log s @ replicate n FlagPoll\<rparr>)"
  using assms
proof (induction n arbitrary: s)
  case 0
  then show ?case
    by (subst wait_ready.simps) (simp add: time_monotonic_def)
next
  case (Suc n)
  let ?s2 = "s\<lparr>ticks := Suc (ticks s), bus_log := bus_log s @ [FlagPoll]\<rparr>"
  from Suc.prems(1) have now: "float_less (monotonic env (ticks s)) start_time" by force
  from Suc.prems(3) have flag: "flag_bit env (length (bus_log s)) = Some False" by force
  have step: "wait_ready env start_time s = wait_ready env start_time ?s2"
    by (subst wait_ready.simps)
      (simp add: time_monotonic_def conversion_ready_flag_def time_sleep_def now flag)
  have "\<forall>j<n. float_less (monotonic env (ticks ?s2 + j)) start_time"
    using Suc.prems(1) by (auto dest: spec [of _ "Suc _"])
  moreover have "\<not> float_less (monotonic env (ticks ?s2 + n)) start_time"
    using Suc.prems(2) by simp
  moreover have "\<forall>j<n. flag_bit env (length (bus_log ?s2) + j) = Some False"
    using Suc.prems(3) by (auto dest: spec [of _ "Suc _"])
  ultimately have "wait_ready env start_time ?s2 =
      Some (Inr (), ?s2\<lparr>ticks := ticks ?s2 + n + 1,
                         bus_log := bus_log ?s2 @ replicate n FlagPoll\<rparr>)"
    by (rule Suc.IH)
  with step show ?case by simp
qed

lemma result_of_addr_alt:
  "result_of_addr env just_lux s =
     (case wait_ready env (float_add (monotonic env (ticks s)) float_1_1)
             (s\<lparr>ticks := Suc (ticks s)\<rparr>) of
        None \<Rightarrow> None
      | Some (Inl e, s') \<Rightarrow> Some (Inl e, s')
      | Some (Inr u, s') \<Rightarrow> Some (read_from_fifo env RESULT_H RESULT_L just_lux s'))"
  by (simp add: result_of_addr_def read_from_fifo_def time_monotonic_def
      split: option.splits prod.splits sum.splits)

lemma result_of_addr_timeout:
  assumes "\<forall>j<n. float_less (monotonic env (ticks s + 1 + j))
                    (float_add (monotonic env (ticks s)) float_1_1)"
    and "\<not> float_less (monotonic env (ticks s + 1 + n))
             (float_add (monotonic env (ticks s)) float_1_1)"
    and "\<forall>j<n. flag_bit env (length (bus_log s) + j) = Some False"
    and "write_then_readinto env (length (bus_log s) + n) (word_of_int RESULT_H)
           = Some (h0, h1, h2)"
    and "write_then_readinto env (length (bus_log s) + n + 1) (word_of_int RESULT_L)
           = Some (l0, l1, l2)"
  shows "result_of_addr env just_lux s =
           Some (Inr (Triple
              (float_mul
                 (Float False
                    (nat (push_bit (nat (drop_bit 4 (uint h0) AND 15))
                            (mantissa (push_bit 8 (uint h0 AND 15) + uint h1) (uint l0)))) 0)
                 lux_per_code)
              (drop_bit 4 (uint l1) AND 15) (uint l1 AND 15)),
            s\<lparr>buf := (l0, l1, l2),
              bus_log := bus_log s @ replicate n FlagPoll @ [Transfer 0, Transfer 1],
              ticks := ticks s + n + 2\<rparr>)"
proof -
  let ?d = "float_add (monotonic env (ticks s)) float_1_1"
  let ?s0 = "s\<lparr>ticks := Suc (ticks s)\<rparr>"
  let ?s1 = "?s0\<lparr>ticks := ticks ?s0 + n + 1, bus_log := bus_log ?s0 @ replicate n FlagPoll\<rparr>"
  have "\<forall>j<n. float_less (monotonic env (ticks ?s0 + j)) ?d"
    using assms(1) by simp
  moreover have "\<not> float_less (monotonic env (ticks ?s0 + n)) ?d"
    using assms(2) by simp
  moreover have "\<forall>j<n. flag_bit env (length (bus_log ?s0) + j) = Some False"
    using assms(3) by simp
  ultimately have wait: "wait_ready env ?d ?s0 = Some (Inr (), ?s1)"
    by (rule wait_ready_timeout)
  have "write_then_readinto env (length (bus_log ?s1)) (word_of_int RESULT_H) = Some (h0, h1, h2)"
    using assms(4) by simp
  moreover have "write_then_readinto env (Suc (length (bus_log ?s1))) (word_of_int RESULT_L)
      = Some (l0, l1, l2)"
    using assms(5) by simp
  ultimately have "read_from_fifo env RESULT_H RESULT_L just_lux ?s1 =
      (Inr (Triple
              (float_mul
                 (Float False
                    (nat (push_bit (nat (drop_bit 4 (uint h0) AND 15))
                            (mantissa (push_bit 8 (uint h0 AND 15) + uint h1) (uint l0)))) 0)
                 lux_per_code)
              (drop_bit 4 (uint l1) AND 15) (uint l1 AND 15)),
       ?s1\<lparr>buf := (l0, l1, l2),
         bus_log := bus_log ?s1 @ [Transfer (word_of_int RESULT_H), Transfer (word_of_int RESULT_L)]\<rparr>)"
    by (intro read_from_fifo_ok) (simp_all add: RESULT_H_def RESULT_L_def)
  then show ?thesis
    by (simp add: result_of_addr_alt wait RESULT_H_def RESULT_L_def)
qed

text \<open>The demo clock: one reading, \<open>4.0\<close>, lies inside the window that opens at \<open>3.0\<close>.\<close>

lemma demo_window:
  "float_less (monotonic demo_env (ticks demo_state + 1 + 0))
     (float_add (monotonic demo_env (ticks demo_state)) float_1_1)
   \<and> \<not> float_less (monotonic demo_env (ticks demo_state + 1 + 1))
       (float_add (monotonic demo_env (ticks demo_state)) float_1_1)"
  by (simp add: demo_env_def demo_state_def deadline_from_3 float_less_def float_val_def)

text \<open>
  C4. \<open>start_time\<close> is the float sum of the first clock reading and \<open>1.1\<close>, and the
  polling window is the run of clock readings that compare below it; say it holds \<open>n\<close>
  of them, and the flag reads as clear at each. Then \<open>lux\<close> returns, and returns no
  error: after the \<open>n\<close> polls it reads \<open>RESULT_H\<close> and \<open>RESULT_L\<close> and returns what it
  decodes from the bytes the bus answers with, provided the bus answers.
\<close>

theorem lux_after_timeout:
  assumes "\<forall>j<n. float_less (monotonic env (ticks s + 1 + j))
                    (float_add (monotonic env (ticks s)) float_1_1)"
    and "\<not> float_less (monotonic env (ticks s + 1 + n))
             (float_add (monotonic env (ticks s)) float_1_1)"
    and "\<forall>j<n. flag_bit env (length (bus_log s) + j) = Some False"
    and "write_then_readinto env (length (bus_log s) + n) (word_of_int RESULT_H)
           = Some (h0, h1, h2)"
    and "write_then_readinto env (length (bus_log s) + n + 1) (word_of_int RESULT_L)
           = Some (l0, l1, l2)"
  shows "\<exists>v s'. lux env s
             = Some (Inr (Triple v (drop_bit 4 (uint l1) AND 0xF) (uint l1 AND 0xF)), s')
         \<and> compute_lux (drop_bit 4 (uint h0) AND 0xF)
               (push_bit 8 (uint h0 AND 0xF) OR uint h1) (uint l0) = Inr v
         \<and> buf s' = (l0, l1, l2)
         \<and> bus_log s' = bus_log s @ replicate n FlagPoll @ [Transfer 0, Transfer 1]"
proof -
  let ?e = "drop_bit 4 (uint h0) AND 15"
  let ?m = "push_bit 8 (uint h0 AND 15) + uint h1"
  let ?v = "float_mul (Float False (nat (push_bit (nat ?e) (mantissa ?m (uint l0)))) 0)
              lux_per_code"
  have "compute_lux ?e ?m (uint l0) = Inr ?v"
    using nibble_bounds [of "drop_bit 4 (uint h0)"] decoded_msb_range [of h0 h1]
      uint_byte_bounds [of l0]
    by (intro compute_lux_decoded) simp_all
  then have comp: "compute_lux ?e (push_bit 8 (uint h0 AND 15) OR uint h1) (uint l0) = Inr ?v"
    by (simp only: add_is_or)
  show ?thesis
    unfolding lux_def result_of_addr_timeout [OF assms]
    using comp by simp
qed

theorem lux_after_timeout_witness:
  "float_less (monotonic demo_env (ticks demo_state + 1 + 0))
     (float_add (monotonic demo_env (ticks demo_state)) float_1_1)
   \<and> \<not> float_less (monotonic demo_env (ticks demo_state + 1 + 1))
       (float_add (monotonic demo_env (ticks demo_state)) float_1_1)
   \<and> flag_bit demo_env (length (bus_log demo_state) + 0) = Some False
   \<and> write_then_readinto demo_env (length (bus_log demo_state) + 1) (word_of_int RESULT_H)
       = Some (0x00, 0x01, 0x00)
   \<and> write_then_readinto demo_env (length (bus_log demo_state) + 1 + 1) (word_of_int RESULT_L)
       = Some (0x00, 0x00, 0x00)
   \<and> (\<exists>v s'. lux demo_env demo_state = Some (Inr (Triple v 0 0), s')
          \<and> compute_lux 0 1 0 = Inr v
          \<and> buf s' = (0, 0, 0)
          \<and> bus_log s' = [FlagPoll, Transfer 0, Transfer 1])"
proof -
  have w1: "float_less (monotonic demo_env (ticks demo_state + 1 + 0))
      (float_add (monotonic demo_env (ticks demo_state)) float_1_1)"
    using demo_window by (rule conjunct1)
  then have h1: "\<forall>j<1. float_less (monotonic demo_env (ticks demo_state + 1 + j))
      (float_add (monotonic demo_env (ticks demo_state)) float_1_1)"
    by simp
  have h2: "\<not> float_less (monotonic demo_env (ticks demo_state + 1 + 1))
      (float_add (monotonic demo_env (ticks demo_state)) float_1_1)"
    using demo_window by (rule conjunct2)
  have w3: "flag_bit demo_env (length (bus_log demo_state) + 0) = Some False"
    by (simp add: demo_env_def)
  then have h3: "\<forall>j<1. flag_bit demo_env (length (bus_log demo_state) + j) = Some False"
    by simp
  have h4: "write_then_readinto demo_env (length (bus_log demo_state) + 1) (word_of_int RESULT_H)
       = Some (0x00, 0x01, 0x00)"
    by (simp add: demo_env_def RESULT_H_def)
  have h5: "write_then_readinto demo_env (length (bus_log demo_state) + 1 + 1) (word_of_int RESULT_L)
       = Some (0x00, 0x00, 0x00)"
    by (simp add: demo_env_def RESULT_L_def)
  from lux_after_timeout [OF h1 h2 h3 h4 h5]
  have "\<exists>v s'. lux demo_env demo_state = Some (Inr (Triple v 0 0), s')
          \<and> compute_lux 0 1 0 = Inr v
          \<and> buf s' = (0, 0, 0)
          \<and> bus_log s' = [FlagPoll, Transfer 0, Transfer 1]"
    by (simp add: demo_state_def)
  with w1 h2 w3 h4 h5 show ?thesis by blast
qed

text \<open>
  C1, on \<open>demo_env\<close>. Both lux-only reads return the tuple of lux, counter and crc,
  not the bare float their docstrings and annotations promise: the \<open>lux\<close> property
  returns \<open>(0.112, 0, 0)\<close> and \<open>read_lux_FIFO(1)\<close> a tuple as well.
\<close>

theorem lux_only_reads_return_triple:
  "(\<exists>v s'. lux demo_env demo_state = Some (Inr (Triple v 0 0), s')
            \<and> float_val v = float_val float_0_112)
   \<and> (\<exists>v s'. read_lux_FIFO demo_env 1 demo_state = (Inr (Triple v 0 0), s'))"
proof -
  have h1: "\<forall>j<1. float_less (monotonic demo_env (ticks demo_state + 1 + j))
      (float_add (monotonic demo_env (ticks demo_state)) float_1_1)"
    using demo_window by simp
  have h2: "\<not> float_less (monotonic demo_env (ticks demo_state + 1 + 1))
      (float_add (monotonic demo_env (ticks demo_state)) float_1_1)"
    using demo_window by (rule conjunct2)
  have h3: "\<forall>j<1. flag_bit demo_env (length (bus_log demo_state) + j) = Some False"
    by (simp add: demo_env_def)
  have h4: "write_then_readinto demo_env (length (bus_log demo_state) + 1) (word_of_int RESULT_H)
       = Some (0x00, 0x01, 0x00)"
    by (simp add: demo_env_def RESULT_H_def)
  have h5: "write_then_readinto demo_env (length (bus_log demo_state) + 1 + 1) (word_of_int RESULT_L)
       = Some (0x00, 0x00, 0x00)"
    by (simp add: demo_env_def RESULT_L_def)
  have v: "float_val (float_mul (Float False 256 0) lux_per_code) = float_val float_0_112"
    by (rule lux_256_is_0_112)
  have "lux demo_env demo_state =
      Some (Inr (Triple (float_mul (Float False 256 0) lux_per_code) 0 0),
            demo_state\<lparr>buf := (0, 0, 0),
              bus_log := bus_log demo_state @ replicate 1 FlagPoll @ [Transfer 0, Transfer 1],
              ticks := ticks demo_state + 1 + 2\<rparr>)"
    unfolding lux_def result_of_addr_timeout [OF h1 h2 h3 h4 h5]
    by (simp add: mantissa_def)
  with v have first: "\<exists>v s'. lux demo_env demo_state = Some (Inr (Triple v 0 0), s')
            \<and> float_val v = float_val float_0_112"
    by blast
  have "\<exists>v s'. read_from_fifo demo_env FIFO_1_H FIFO_1_L True demo_state = (Inr (Triple v 0 0), s')"
    by (subst read_from_fifo_ok [of FIFO_1_H FIFO_1_L demo_env demo_state "0x10" "0x00" "0xFF" "0xFF" "0x00" "0x00"])
      (simp_all add: FIFO_1_H_def FIFO_1_L_def demo_env_def demo_state_def)
  then have second: "\<exists>v s'. read_lux_FIFO demo_env 1 demo_state = (Inr (Triple v 0 0), s')"
    by (simp add: read_lux_FIFO_def channels_def)
  from first second show ?thesis by (rule conjI)
qed

end
